theory Spec2Isabelle
  imports Main "HOL-Library.Word"
begin

unbundle bit_operations_syntax

section \<open>MiniRTOS: ring-buffer queue and cooperative scheduler (minirtos.c, minirtos.h)\<close>

text \<open>
  Conventions of the embedding.
  \<^item> A pointer is an address, a natural number; the address \<open>0\<close> is \<open>NULL\<close>.
  \<^item> \<open>uint8_t\<close>, \<open>uint16_t\<close>, \<open>uint32_t\<close> and \<open>uintmax_t\<close> are words of 8, 16, 32
    and 64 bits; \<open>intmax_t\<close> is read off a 64-bit word with \<open>sint\<close>. The target of the
    repository is a 32-bit ARM core, where \<open>int\<close> has 32 bits, so the integer promotions
    of C compute on \<open>int\<close> without overflow and a store into a narrower field truncates.
  \<^item> A function that can leave the defined behaviour of C (a \<open>NULL\<close> dereference, a
    remainder by zero, a loop that never ends) returns an \<open>option\<close>; \<open>None\<close> is "no
    defined result".
  \<^item> The one place where this is not done is the call \<open>free(ptrNewTask)\<close> that ends
    \<open>minirtos_RemoveTask\<close> (line 372): it hands a descriptor of the caller's, still
    linked into the list, to the allocator, which C does not define. Here the call is
    recorded (in \<open>freed\<close>) and the run goes on as if \<open>free\<close> had returned without touching
    the descriptor. That is the outcome most favourable to the code: what is shown below
    of a removal that goes wrong goes wrong under this outcome already, and what is shown
    of a removal that goes right (\<open>RemoveTask_not_first\<close>) holds under this outcome only.
\<close>

type_synonym addr = nat
type_synonym uint8_t = "8 word"
type_synonym uint16_t = "16 word"
type_synonym uint32_t = "32 word"
type_synonym uintmax_t = "64 word"

subsection \<open>Constants of minirtos.h\<close>

definition MAX_TASKS_NUMBER :: uint8_t where
  "MAX_TASKS_NUMBER = 255"

definition MAX_TASK_INTERVAL :: uint32_t where
  "MAX_TASK_INTERVAL = 3600000"

definition DEFAULT_TASK_INTERVAL :: uint32_t where
  "DEFAULT_TASK_INTERVAL = 100"

definition MAX_NO_OF_QUEUE_ELEMENTS :: uint16_t where
  "MAX_NO_OF_QUEUE_ELEMENTS = 20"

text \<open>
  Modelled from the spec: the macro \<open>ZERO\<close> comes from StdUtil.h, which is not among the
  sources; the spec gives the due test as "elapsed \<open>\<le> 0\<close>".
\<close>

definition ZERO :: int where
  "ZERO = 0"

subsection \<open>Byte memory and memcpy\<close>

text \<open>
  The queue copies bytes between the caller's message and the caller's ring buffer, so
  both live in one byte-addressed memory. \<open>memcpy m dst src n\<close> is the memory after
  copying \<open>n\<close> bytes; all \<open>n\<close> source bytes are read from the memory before the call
  (for the disjoint regions C requires this is what \<open>memcpy\<close> does).
\<close>

type_synonym memory = "addr \<Rightarrow> 8 word"

definition memcpy :: "memory \<Rightarrow> addr \<Rightarrow> addr \<Rightarrow> nat \<Rightarrow> memory" where
  "memcpy m dst src n = (\<lambda>a. if dst \<le> a \<and> a < dst + n then m (src + (a - dst)) else m a)"

definition load :: "memory \<Rightarrow> addr \<Rightarrow> nat \<Rightarrow> 8 word list" where
  "load m a n = map (\<lambda>i. m (a + i)) [0..<n]"

subsection \<open>The queue\<close>

record Queue_Descriptor_t =
  buffer :: addr
  elementSize :: uint16_t
  maxElements :: uint16_t
  head :: uint16_t
  tail :: uint16_t
  count :: uint16_t

text \<open>
  \<open>minirtos_Queue_Create\<close>: the descriptor pointer is \<open>None\<close> for \<open>NULL\<close>, otherwise the
  descriptor it points to (whose fields hold whatever the caller left there).
\<close>

definition minirtos_Queue_Create ::
  "Queue_Descriptor_t option \<Rightarrow> addr \<Rightarrow> uint16_t \<Rightarrow> uint16_t \<Rightarrow> bool \<times> Queue_Descriptor_t option" where
  "minirtos_Queue_Create ptrq buf elemSize maxElems =
     (case ptrq of
        None \<Rightarrow> (False, None)
      | Some q \<Rightarrow>
          if buf = 0 \<or> elemSize = 0 \<or> maxElems = 0 then (False, Some q)
          else (True, Some (q\<lparr> buffer := buf,
                               elementSize := elemSize,
                               maxElements := (if maxElems > MAX_NO_OF_QUEUE_ELEMENTS
                                               then MAX_NO_OF_QUEUE_ELEMENTS else maxElems),
                               head := 0, tail := 0, count := 0 \<rparr>)))"

text \<open>
  \<open>uint16_t idx = tail * elementSize\<close>: the product is computed on \<open>int\<close> and stored
  into 16 bits, which is the product of the two 16-bit words.
\<close>

definition slot_index :: "uint16_t \<Rightarrow> uint16_t \<Rightarrow> uint16_t" where
  "slot_index pos elemSize = pos * elemSize"

text \<open>
  \<open>(pos + 1) % maxElements\<close>: sum and remainder on \<open>int\<close>, stored into 16 bits. The
  callers below exclude \<open>maxElements = 0\<close>, where C has no defined result.
\<close>

definition next_index :: "uint16_t \<Rightarrow> uint16_t \<Rightarrow> uint16_t" where
  "next_index pos maxElems = of_nat ((unat pos + 1) mod unat maxElems)"

text \<open>
  \<open>minirtos_Queue_Send q ptrmsg m\<close> returns the success flag, the descriptor and the
  memory after the call. The critical-section macros only mask interrupts and are not
  modelled: a call runs to its end on the state it is given.
\<close>

definition minirtos_Queue_Send ::
  "Queue_Descriptor_t \<Rightarrow> addr \<Rightarrow> memory \<Rightarrow> (bool \<times> Queue_Descriptor_t \<times> memory) option" where
  "minirtos_Queue_Send q ptrmsg m =
     (if count q = maxElements q then Some (False, q, m)
      else if maxElements q = 0 then None
      else
        let idx = slot_index (tail q) (elementSize q);
            m' = memcpy m (buffer q + unat idx) ptrmsg (unat (elementSize q))
        in Some (True,
                 q\<lparr> tail := next_index (tail q) (maxElements q), count := count q + 1 \<rparr>,
                 m'))"

definition minirtos_Queue_Receive ::
  "Queue_Descriptor_t \<Rightarrow> addr \<Rightarrow> memory \<Rightarrow> (bool \<times> Queue_Descriptor_t \<times> memory) option" where
  "minirtos_Queue_Receive q ptrmsg m =
     (if count q = 0 then Some (False, q, m)
      else if maxElements q = 0 then None
      else
        let idx = slot_index (head q) (elementSize q);
            m' = memcpy m ptrmsg (buffer q + unat idx) (unat (elementSize q))
        in Some (True,
                 q\<lparr> head := next_index (head q) (maxElements q), count := count q - 1 \<rparr>,
                 m'))"

definition minirtos_Queue_Count :: "Queue_Descriptor_t \<Rightarrow> uint16_t" where
  "minirtos_Queue_Count q = count q"

definition minirtos_Queue_Flush :: "Queue_Descriptor_t \<Rightarrow> Queue_Descriptor_t" where
  "minirtos_Queue_Flush q = q\<lparr> head := 0, tail := 0, count := 0 \<rparr>"

text \<open>
  A caller's sequence of calls on one queue: each call names the message pointer it
  passes. \<open>run_calls\<close> threads descriptor and memory through the sequence and collects
  the returned flags.
\<close>

datatype queue_call = Send addr | Receive addr

fun do_call :: "queue_call \<Rightarrow> Queue_Descriptor_t \<Rightarrow> memory \<Rightarrow> (bool \<times> Queue_Descriptor_t \<times> memory) option" where
  "do_call (Send p) q m = minirtos_Queue_Send q p m"
| "do_call (Receive p) q m = minirtos_Queue_Receive q p m"

fun run_calls :: "queue_call list \<Rightarrow> Queue_Descriptor_t \<Rightarrow> memory \<Rightarrow> (bool list \<times> Queue_Descriptor_t \<times> memory) option" where
  "run_calls [] q m = Some ([], q, m)"
| "run_calls (c # cs) q m =
     (case do_call c q m of
        None \<Rightarrow> None
      | Some (r, q', m') \<Rightarrow>
          (case run_calls cs q' m' of
             None \<Rightarrow> None
           | Some (rs, q'', m'') \<Rightarrow> Some (r # rs, q'', m'')))"

subsection \<open>Task descriptors and the scheduler's globals\<close>

text \<open>
  An object of the C type \<open>Task_Status_e\<close> holds a number, not only one of the seven
  enumerators: the code compares it (\<open>>\<close>), masks it (\<open>&\<close>) and has a \<open>default:\<close>
  case for the other numbers, and a caller or an uninitialised descriptor can supply
  any of them. No enumerator is negative, so the compiler gives the type an unsigned
  representation; its width is left open here, a status is a natural number and the
  enumerators are the numbers of minirtos.h.
\<close>

type_synonym Task_Status_e = nat

definition TASK_PAUSE :: Task_Status_e where
  "TASK_PAUSE = 0x00"

definition TASK_SCHEDULED :: Task_Status_e where
  "TASK_SCHEDULED = 0x01"

definition TASK_ONE_SHOT :: Task_Status_e where
  "TASK_ONE_SHOT = 0x02"

definition TASK_RUN_NOW :: Task_Status_e where
  "TASK_RUN_NOW = 0x03"

definition TASK_ONE_SHOT_NOW :: Task_Status_e where
  "TASK_ONE_SHOT_NOW = 0x05"

definition TASK_RUNNING :: Task_Status_e where
  "TASK_RUNNING = 0x06"

definition TASK_NOT_FOUND :: Task_Status_e where
  "TASK_NOT_FOUND = 0xFF"

text \<open>\<open>taskPointer\<close> is the address of the task body; \<open>gptrTaskNext\<close> the next descriptor.\<close>

record Task_Descriptor_t =
  taskPointer :: addr
  taskInterval :: uint32_t
  plannedTask :: uint32_t
  taskStatus :: Task_Status_e
  gptrTaskNext :: addr

text \<open>
  The globals of minirtos.c, the tick counter declared in minirtos.h, and the memory that
  holds the callers' descriptors: \<open>heap s p\<close> is the descriptor at the address \<open>p\<close>.
  \<open>freed\<close> is not a variable of the program: it records, in order, the descriptor
  addresses the code has passed to \<open>free\<close>. (The temporary block that \<open>minirtos_AddTask\<close>
  and \<open>minirtos_RemoveTask\<close> obtain from \<open>malloc\<close> is never read or written; obtaining it
  and freeing it again are left out.)
\<close>

record sched =
  glbInitialized :: uint8_t
  glbNumberOfTasks :: uint8_t
  gptrTaskSchedule :: addr
  gptrTaskFirst :: addr
  glbSysTicks :: uintmax_t
  heap :: "addr \<Rightarrow> Task_Descriptor_t"
  freed :: "addr list"

text \<open>The program at start-up: C zero-initialises the globals; the heap is the caller's.\<close>

definition startup :: "(addr \<Rightarrow> Task_Descriptor_t) \<Rightarrow> sched" where
  "startup h = \<lparr> glbInitialized = 0, glbNumberOfTasks = 0, gptrTaskSchedule = 0,
                 gptrTaskFirst = 0, glbSysTicks = 0, heap = h, freed = [] \<rparr>"

text \<open>
  Modelled from the spec: the tick source is not among the sources; the spec says it
  "increments a monotonic counter once per fixed time unit; wraps on overflow". Here
  \<open>n\<close> such increments at once.
\<close>

definition ticks_elapse :: "uintmax_t \<Rightarrow> sched \<Rightarrow> sched" where
  "ticks_elapse n s = s\<lparr> glbSysTicks := glbSysTicks s + n \<rparr>"

definition minirtos_Init :: "sched \<Rightarrow> sched" where
  "minirtos_Init s = s\<lparr> glbInitialized := 1, glbSysTicks := 0, glbNumberOfTasks := 0,
                         gptrTaskSchedule := 0 \<rparr>"

text \<open>
  \<open>plannedTask = glbSysTicks + taskInterval\<close>: the interval is widened to the counter's
  64 bits, the sum wraps at 64 bits and the store keeps its low 32 bits.
\<close>

definition planned_from :: "uintmax_t \<Rightarrow> uint32_t \<Rightarrow> uint32_t" where
  "planned_from ticks interval = ucast (ticks + ucast interval)"

text \<open>
  Both \<open>while\<close> loops of the file have the shape
  \<open>while (p->gptrTaskNext != stop) p = p->gptrTaskNext;\<close>.
  \<open>walk_until h stop p\<close> is the value of \<open>p\<close> when the loop ends, and \<open>None\<close> when it
  dereferences \<open>NULL\<close> or never ends.
\<close>

partial_function (option) walk_until :: "(addr \<Rightarrow> Task_Descriptor_t) \<Rightarrow> addr \<Rightarrow> addr \<Rightarrow> addr option" where
  "walk_until h stop p =
     (if p = 0 then None
      else if gptrTaskNext (h p) \<noteq> stop then walk_until h stop (gptrTaskNext (h p))
      else Some p)"

declare walk_until.simps [code]

subsection \<open>minirtos_AddTask\<close>

text \<open>
  The \<open>switch\<close> on the requested status: the five states a task can be added in are
  kept; \<open>TASK_NOT_FOUND\<close>, \<open>TASK_RUNNING\<close> and, by the \<open>default:\<close> case, every other
  number become \<open>TASK_SCHEDULED\<close>.
\<close>

definition checked_status :: "Task_Status_e \<Rightarrow> Task_Status_e" where
  "checked_status status =
     (if status = TASK_PAUSE then status
      else if status = TASK_SCHEDULED then status
      else if status = TASK_ONE_SHOT then status
      else if status = TASK_RUN_NOW then status
      else if status = TASK_ONE_SHOT_NOW then status
      else TASK_SCHEDULED)"

text \<open>
  The interval check. The parameters \<open>taskInterval\<close> and \<open>taskStatus\<close> of the C
  functions are called \<open>interval\<close> and \<open>status\<close> here; the fields of the descriptor
  keep their names. \<open>taskInterval < 0\<close> compares an unsigned value.
\<close>

definition checked_interval :: "uint32_t \<Rightarrow> uint32_t" where
  "checked_interval interval =
     (if interval < 0 \<or> interval > MAX_TASK_INTERVAL then DEFAULT_TASK_INTERVAL
      else interval)"

text \<open>Lines 278 to 303: linking the descriptor into the circle.\<close>

definition link_task :: "sched \<Rightarrow> addr \<Rightarrow> sched option" where
  "link_task s ptrTaskDescriptor =
     (if gptrTaskFirst s \<noteq> 0 then
        (case walk_until (heap s) (gptrTaskFirst s) (gptrTaskSchedule s) of
           None \<Rightarrow> None
         | Some ptrNewTask \<Rightarrow>
             let h1 = (heap s)(ptrNewTask := (heap s ptrNewTask)\<lparr> gptrTaskNext := ptrTaskDescriptor \<rparr>);
                 h2 = h1(ptrTaskDescriptor := (h1 ptrTaskDescriptor)\<lparr> gptrTaskNext := gptrTaskFirst s \<rparr>)
             in Some (s\<lparr> heap := h2 \<rparr>))
      else
        Some (s\<lparr> gptrTaskFirst := ptrTaskDescriptor,
                 gptrTaskSchedule := ptrTaskDescriptor,
                 heap := (heap s)(ptrTaskDescriptor :=
                            (heap s ptrTaskDescriptor)\<lparr> gptrTaskNext := ptrTaskDescriptor \<rparr>) \<rparr>))"

text \<open>Lines 306 to 322: planning the task and filling the descriptor.\<close>

definition fill_task :: "sched \<Rightarrow> addr \<Rightarrow> addr \<Rightarrow> uint32_t \<Rightarrow> Task_Status_e \<Rightarrow> sched" where
  "fill_task s ptrTaskDescriptor ptrUserTask interval status =
     (let d = heap s ptrTaskDescriptor;
          d1 = (if status = TASK_RUN_NOW \<or> status = TASK_ONE_SHOT_NOW
                then d\<lparr> plannedTask := ucast (glbSysTicks s) \<rparr>
                else d\<lparr> taskStatus := status,
                        plannedTask := planned_from (glbSysTicks s) interval \<rparr>);
          d2 = d1\<lparr> taskInterval := interval, taskPointer := ptrUserTask \<rparr>
      in s\<lparr> heap := (heap s)(ptrTaskDescriptor := d2),
             glbNumberOfTasks := glbNumberOfTasks s + 1 \<rparr>)"

definition minirtos_AddTask ::
  "sched \<Rightarrow> addr \<Rightarrow> addr \<Rightarrow> uint32_t \<Rightarrow> Task_Status_e \<Rightarrow> (bool \<times> sched) option" where
  "minirtos_AddTask s ptrTaskDescriptor ptrUserTask interval status =
     (if glbInitialized s = 0 \<or> glbNumberOfTasks s = MAX_TASKS_NUMBER \<or> ptrUserTask = 0
      then Some (False, s)
      else if ptrTaskDescriptor \<noteq> 0 then
        (case link_task s ptrTaskDescriptor of
           None \<Rightarrow> None
         | Some s1 \<Rightarrow>
             Some (True, fill_task s1 ptrTaskDescriptor ptrUserTask
                           (checked_interval interval) (checked_status status)))
      else Some (False, s))"

subsection \<open>minirtos_RemoveTask\<close>

text \<open>
  Lines 343 to 374. The walk pointer \<open>ptrNewTask\<close> ends on the descriptor that points to
  the target; the last statement passes that descriptor to \<open>free\<close>, which is recorded in
  \<open>freed\<close> (see the conventions above).
\<close>

definition minirtos_RemoveTask :: "sched \<Rightarrow> addr \<Rightarrow> (bool \<times> sched) option" where
  "minirtos_RemoveTask s ptrUserTaskDescriptor =
     (if glbInitialized s = 0 \<or> glbNumberOfTasks s = MAX_TASKS_NUMBER \<or> ptrUserTaskDescriptor = 0
      then Some (False, s)
      else
        (case walk_until (heap s) ptrUserTaskDescriptor (gptrTaskFirst s) of
           None \<Rightarrow> None
         | Some ptrNewTask \<Rightarrow>
             let s1 = (if gptrTaskNext (heap s ptrNewTask) = gptrTaskFirst s
                       then s\<lparr> gptrTaskFirst :=
                                 gptrTaskNext (heap s (gptrTaskNext (heap s ptrNewTask))) \<rparr>
                       else s\<lparr> heap := (heap s)(ptrNewTask := (heap s ptrNewTask)
                                 \<lparr> gptrTaskNext := gptrTaskNext (heap s ptrUserTaskDescriptor) \<rparr>) \<rparr>)
             in Some (True, s1\<lparr> glbNumberOfTasks := glbNumberOfTasks s1 - 1,
                                freed := freed s1 @ [ptrNewTask] \<rparr>)))"

subsection \<open>Pause, resume, modify, status\<close>

definition minirtos_PauseTask :: "sched \<Rightarrow> addr \<Rightarrow> bool \<times> sched" where
  "minirtos_PauseTask s ptrTaskDescriptor =
     (if glbInitialized s = 0 \<or> ptrTaskDescriptor = 0 then (False, s)
      else (True, s\<lparr> heap := (heap s)(ptrTaskDescriptor :=
                       (heap s ptrTaskDescriptor)\<lparr> taskStatus := TASK_PAUSE \<rparr>) \<rparr>))"

definition minirtos_ResumeTask :: "sched \<Rightarrow> addr \<Rightarrow> bool \<times> sched" where
  "minirtos_ResumeTask s ptrTaskDescriptor =
     (if glbInitialized s = 0 \<or> ptrTaskDescriptor = 0 then (False, s)
      else (True, s\<lparr> heap := (heap s)(ptrTaskDescriptor :=
                       (heap s ptrTaskDescriptor)
                       \<lparr> taskStatus := TASK_SCHEDULED,
                         plannedTask := planned_from (glbSysTicks s)
                                          (taskInterval (heap s ptrTaskDescriptor)) \<rparr>) \<rparr>))"

definition minirtos_ModifyTask :: "sched \<Rightarrow> addr \<Rightarrow> uint32_t \<Rightarrow> Task_Status_e \<Rightarrow> bool \<times> sched" where
  "minirtos_ModifyTask s ptrTaskDescriptor interval status =
     (if glbInitialized s = 0 \<or> ptrTaskDescriptor = 0 then (False, s)
      else if status > TASK_ONE_SHOT_NOW then (False, s)
      else (True, s\<lparr> heap := (heap s)(ptrTaskDescriptor :=
                       (heap s ptrTaskDescriptor)
                       \<lparr> taskInterval := interval,
                         taskStatus := status,
                         plannedTask :=
                           (if status = TASK_SCHEDULED \<or> status = TASK_ONE_SHOT
                            then planned_from (glbSysTicks s) interval else 0) \<rparr>) \<rparr>))"

definition minirtos_GetTaskStatus :: "sched \<Rightarrow> addr \<Rightarrow> Task_Status_e" where
  "minirtos_GetTaskStatus s ptrTaskDescriptor =
     (if glbInitialized s = 0 \<or> ptrTaskDescriptor = 0 then TASK_NOT_FOUND
      else taskStatus (heap s ptrTaskDescriptor))"

subsection \<open>minirtos_Scheduler\<close>

text \<open>
  \<open>intmax_t elapsedTime = plannedTask - glbSysTicks\<close>: the 32-bit field is widened to
  the counter's unsigned 64 bits, the difference wraps at 64 bits and is then read as
  a signed number.
\<close>

definition elapsedTime :: "uint32_t \<Rightarrow> uintmax_t \<Rightarrow> int" where
  "elapsedTime planned ticks = sint ((ucast planned :: uintmax_t) - ticks)"

text \<open>
  A task body is code of the application. \<open>cb f s\<close> is the state in which the body at
  the address \<open>f\<close> returns when called in \<open>s\<close> (it may call the functions above).
  \<open>dispatch cb s\<close> is lines 528 to 547 on the task under the cursor: the addresses of
  the bodies called, in order, and the state afterwards. The tick counter is read once
  per iteration, with no tick in between.
\<close>

definition dispatch :: "(addr \<Rightarrow> sched \<Rightarrow> sched) \<Rightarrow> sched \<Rightarrow> (addr list \<times> sched) option" where
  "dispatch cb s =
     (let t = heap s (gptrTaskSchedule s) in
      if taskStatus t > TASK_PAUSE then
        if elapsedTime (plannedTask t) (glbSysTicks s) \<le> ZERO then
          if taskStatus t AND TASK_ONE_SHOT \<noteq> 0 then
            (let s1 = cb (taskPointer t) s in
             if gptrTaskSchedule s1 = 0 then None
             else Some ([taskPointer t],
                        s1\<lparr> heap := (heap s1)(gptrTaskSchedule s1 :=
                               (heap s1 (gptrTaskSchedule s1))\<lparr> taskStatus := TASK_PAUSE \<rparr>) \<rparr>))
          else
            (let s1 = s\<lparr> heap := (heap s)(gptrTaskSchedule s :=
                              t\<lparr> plannedTask := planned_from (glbSysTicks s) (taskInterval t) \<rparr>) \<rparr>
             in Some ([taskPointer t], cb (taskPointer t) s1))
        else Some ([], s)
      else Some ([], s))"

text \<open>One pass through the body of \<open>while (1)\<close>.\<close>

definition Scheduler_iteration :: "(addr \<Rightarrow> sched \<Rightarrow> sched) \<Rightarrow> sched \<Rightarrow> (addr list \<times> sched) option" where
  "Scheduler_iteration cb s =
     (if gptrTaskSchedule s \<noteq> 0 \<and> glbNumberOfTasks s \<noteq> 0 then
        (case dispatch cb s of
           None \<Rightarrow> None
         | Some (called, s1) \<Rightarrow>
             Some (called,
                   if gptrTaskSchedule s1 \<noteq> 0
                   then s1\<lparr> gptrTaskSchedule := gptrTaskNext (heap s1 (gptrTaskSchedule s1)) \<rparr>
                   else s1))
      else Some ([], s))"

text \<open>
  The first \<open>n\<close> passes of \<open>minirtos_Scheduler\<close>, which itself never returns, with the
  addresses of the task bodies called, in order.
\<close>

fun minirtos_Scheduler :: "(addr \<Rightarrow> sched \<Rightarrow> sched) \<Rightarrow> nat \<Rightarrow> sched \<Rightarrow> (addr list \<times> sched) option" where
  "minirtos_Scheduler cb 0 s = Some ([], s)"
| "minirtos_Scheduler cb (Suc n) s =
     (case Scheduler_iteration cb s of
        None \<Rightarrow> None
      | Some (called, s1) \<Rightarrow>
          (case minirtos_Scheduler cb n s1 of
             None \<Rightarrow> None
           | Some (called', s2) \<Rightarrow> Some (called @ called', s2)))"

subsection \<open>Call sequences on the scheduler\<close>

text \<open>
  An application's calls, in order. \<open>Ticks n\<close> lets \<open>n\<close> ticks elapse and \<open>Passes n\<close>
  runs \<open>n\<close> passes of the scheduler's loop. \<open>run\<close> collects the flags the calls return
  and the addresses of the task bodies the scheduler calls.
\<close>

datatype event =
    Init
  | Add addr addr uint32_t Task_Status_e
  | Remove addr
  | Pause addr
  | Resume addr
  | Modify addr uint32_t Task_Status_e
  | Ticks uintmax_t
  | Passes nat

fun perform :: "(addr \<Rightarrow> sched \<Rightarrow> sched) \<Rightarrow> event \<Rightarrow> sched \<Rightarrow> (bool list \<times> addr list \<times> sched) option" where
  "perform cb Init s = Some ([], [], minirtos_Init s)"
| "perform cb (Add p f i st) s =
     (case minirtos_AddTask s p f i st of None \<Rightarrow> None | Some (r, s') \<Rightarrow> Some ([r], [], s'))"
| "perform cb (Remove p) s =
     (case minirtos_RemoveTask s p of None \<Rightarrow> None | Some (r, s') \<Rightarrow> Some ([r], [], s'))"
| "perform cb (Pause p) s = (case minirtos_PauseTask s p of (r, s') \<Rightarrow> Some ([r], [], s'))"
| "perform cb (Resume p) s = (case minirtos_ResumeTask s p of (r, s') \<Rightarrow> Some ([r], [], s'))"
| "perform cb (Modify p i st) s =
     (case minirtos_ModifyTask s p i st of (r, s') \<Rightarrow> Some ([r], [], s'))"
| "perform cb (Ticks n) s = Some ([], [], ticks_elapse n s)"
| "perform cb (Passes n) s =
     (case minirtos_Scheduler cb n s of None \<Rightarrow> None | Some (c, s') \<Rightarrow> Some ([], c, s'))"

fun run :: "(addr \<Rightarrow> sched \<Rightarrow> sched) \<Rightarrow> event list \<Rightarrow> sched \<Rightarrow> (bool list \<times> addr list \<times> sched) option" where
  "run cb [] s = Some ([], [], s)"
| "run cb (e # es) s =
     (case perform cb e s of
        None \<Rightarrow> None
      | Some (rs, cs, s1) \<Rightarrow>
          (case run cb es s1 of
             None \<Rightarrow> None
           | Some (rs', cs', s2) \<Rightarrow> Some (rs @ rs', cs @ cs', s2)))"

text \<open>Descriptors in zero-filled (static) storage, and task bodies that call nothing.\<close>

definition zeroed :: "addr \<Rightarrow> Task_Descriptor_t" where
  "zeroed p = \<lparr> taskPointer = 0, taskInterval = 0, plannedTask = 0,
               taskStatus = TASK_PAUSE, gptrTaskNext = 0 \<rparr>"

definition no_effect :: "addr \<Rightarrow> sched \<Rightarrow> sched" where
  "no_effect f s = s"

text \<open>\<open>walk_next h n p\<close>: the descriptor reached from \<open>p\<close> after \<open>n\<close> steps along \<open>gptrTaskNext\<close>.\<close>

primrec walk_next :: "(addr \<Rightarrow> Task_Descriptor_t) \<Rightarrow> nat \<Rightarrow> addr \<Rightarrow> addr" where
  "walk_next h 0 p = p"
| "walk_next h (Suc n) p = walk_next h n (gptrTaskNext (h p))"

text \<open>What a run left behind: one descriptor, the list's globals, the walk around the list.\<close>

definition task_after ::
  "addr \<Rightarrow> (bool list \<times> addr list \<times> sched) option \<Rightarrow> (bool list \<times> addr list \<times> Task_Descriptor_t) option" where
  "task_after p r = (case r of None \<Rightarrow> None | Some (rs, cs, s) \<Rightarrow> Some (rs, cs, heap s p))"

definition list_after ::
  "(bool list \<times> addr list \<times> sched) option \<Rightarrow> (bool list \<times> addr \<times> addr \<times> uint8_t \<times> addr list) option" where
  "list_after r =
     (case r of
        None \<Rightarrow> None
      | Some (rs, cs, s) \<Rightarrow>
          Some (rs, gptrTaskFirst s, gptrTaskSchedule s, glbNumberOfTasks s, freed s))"

definition circle_after ::
  "(bool list \<times> addr list \<times> sched) option \<Rightarrow> (bool list \<times> addr \<times> uint8_t \<times> addr) option" where
  "circle_after r =
     (case r of
        None \<Rightarrow> None
      | Some (rs, cs, s) \<Rightarrow>
          Some (rs, gptrTaskFirst s, glbNumberOfTasks s,
                walk_next (heap s) (unat (glbNumberOfTasks s)) (gptrTaskFirst s)))"

subsection \<open>Queues and messages used below\<close>

text \<open>The queue invariant that \<open>minirtos_Queue_Create\<close> establishes.\<close>

definition queue_ok :: "Queue_Descriptor_t \<Rightarrow> bool" where
  "queue_ok q \<longleftrightarrow> maxElements q \<noteq> 0 \<and> count q \<le> maxElements q"

definition q_any :: Queue_Descriptor_t where
  "q_any = \<lparr> buffer = 0, elementSize = 0, maxElements = 0, head = 7, tail = 9, count = 3 \<rparr>"

definition q_small :: Queue_Descriptor_t where
  "q_small = \<lparr> buffer = 1000, elementSize = 4, maxElements = 3, head = 0, tail = 0, count = 0 \<rparr>"

definition q_big :: Queue_Descriptor_t where
  "q_big = \<lparr> buffer = 4096, elementSize = 8192, maxElements = 9, head = 0, tail = 0, count = 0 \<rparr>"

text \<open>
  A memory that holds messages of 8192 bytes from the address 200000 on: message \<open>k\<close>
  (\<open>k = 1, 2, \<dots>\<close>) starts at \<open>msg k\<close> and each of its bytes is \<open>k\<close>.
\<close>

definition m_msgs :: memory where
  "m_msgs a = (if 200000 \<le> a then of_nat ((a - 200000) div 8192 + 1) else 0)"

definition msg :: "nat \<Rightarrow> addr" where
  "msg k = 200000 + (k - 1) * 8192"

definition byte_after ::
  "addr \<Rightarrow> (bool list \<times> Queue_Descriptor_t \<times> memory) option \<Rightarrow> (bool list \<times> 8 word) option" where
  "byte_after a r = (case r of None \<Rightarrow> None | Some (rs, q, m) \<Rightarrow> Some (rs, m a))"

definition queue_after ::
  "(bool list \<times> Queue_Descriptor_t \<times> memory) option \<Rightarrow> (bool list \<times> Queue_Descriptor_t) option" where
  "queue_after r = (case r of None \<Rightarrow> None | Some (rs, q, m) \<Rightarrow> Some (rs, q))"

subsection \<open>The circle of descriptors\<close>

text \<open>
  \<open>circle h ns\<close>: the descriptors \<open>ns\<close> are distinct, none is \<open>NULL\<close>, and each points to
  the next of the list, the last one to the first. \<open>linked s ns\<close>: the scheduler is
  initialised, counts \<open>length ns\<close> tasks, and is empty (\<open>gptrTaskFirst\<close> is \<open>NULL\<close>) or has
  the circle \<open>ns\<close> from \<open>gptrTaskFirst\<close> with the cursor on it.
\<close>

definition circle :: "(addr \<Rightarrow> Task_Descriptor_t) \<Rightarrow> addr list \<Rightarrow> bool" where
  "circle h ns \<longleftrightarrow>
     ns \<noteq> [] \<and> distinct ns \<and> 0 \<notin> set ns
     \<and> (\<forall>i < length ns. gptrTaskNext (h (ns ! i)) = ns ! (Suc i mod length ns))"

definition linked :: "sched \<Rightarrow> addr list \<Rightarrow> bool" where
  "linked s ns \<longleftrightarrow>
     glbInitialized s \<noteq> 0 \<and> unat (glbNumberOfTasks s) = length ns
     \<and> (if ns = [] then gptrTaskFirst s = 0
         else gptrTaskFirst s = hd ns \<and> gptrTaskSchedule s \<in> set ns \<and> circle (heap s) ns)"

subsection \<open>The ring and what it stores\<close>

text \<open>
  \<open>ring_ok q\<close>: the indices are below the capacity, the tail is \<open>count\<close> slots after the
  head (around the ring), and the byte index of the last slot fits the 16 bits it is
  kept in. \<open>slot q i\<close> is the address of the \<open>i\<close>-th slot from the head and
  \<open>contents q m\<close> the stored elements, oldest first, each as its \<open>elementSize\<close> bytes.
\<close>

definition ring_ok :: "Queue_Descriptor_t \<Rightarrow> bool" where
  "ring_ok q \<longleftrightarrow>
     maxElements q \<noteq> 0 \<and> count q \<le> maxElements q
     \<and> head q < maxElements q \<and> tail q < maxElements q
     \<and> unat (tail q) = (unat (head q) + unat (count q)) mod unat (maxElements q)
     \<and> (unat (maxElements q) - 1) * unat (elementSize q) < 65536"

definition slot :: "Queue_Descriptor_t \<Rightarrow> nat \<Rightarrow> addr" where
  "slot q i = buffer q + ((unat (head q) + i) mod unat (maxElements q)) * unat (elementSize q)"

definition contents :: "Queue_Descriptor_t \<Rightarrow> memory \<Rightarrow> 8 word list list" where
  "contents q m = map (\<lambda>i. load m (slot q i) (unat (elementSize q))) [0..<unat (count q)]"

section \<open>Properties\<close>

lemmas queue_defs =
  minirtos_Queue_Create_def minirtos_Queue_Send_def minirtos_Queue_Receive_def
  slot_index_def next_index_def memcpy_def MAX_NO_OF_QUEUE_ELEMENTS_def Let_def
  q_any_def q_small_def q_big_def m_msgs_def msg_def byte_after_def queue_after_def

lemmas sched_defs =
  task_after_def list_after_def circle_after_def startup_def zeroed_def no_effect_def
  ticks_elapse_def minirtos_Init_def minirtos_AddTask_def minirtos_RemoveTask_def
  minirtos_PauseTask_def minirtos_ResumeTask_def minirtos_ModifyTask_def link_task_def
  fill_task_def checked_interval_def planned_from_def elapsedTime_def dispatch_def
  Scheduler_iteration_def MAX_TASKS_NUMBER_def MAX_TASK_INTERVAL_def
  DEFAULT_TASK_INTERVAL_def ZERO_def walk_until.simps Let_def checked_status_def
  TASK_PAUSE_def TASK_SCHEDULED_def TASK_ONE_SHOT_def TASK_RUN_NOW_def
  TASK_ONE_SHOT_NOW_def TASK_RUNNING_def TASK_NOT_FOUND_def

subsection \<open>Queue: results of Send and Receive, bounds of the count\<close>

lemma Create_queue_ok:
  "minirtos_Queue_Create ptrq buf es mx = (True, Some q) \<Longrightarrow> queue_ok q \<and> count q = 0"
  by (auto simp: minirtos_Queue_Create_def queue_ok_def MAX_NO_OF_QUEUE_ELEMENTS_def
           split: option.splits if_splits)

lemma Send_queue_ok:
  assumes "queue_ok q"
  shows "\<exists>r q' m'. minirtos_Queue_Send q p m = Some (r, q', m') \<and> queue_ok q'
           \<and> maxElements q' = maxElements q"
proof (cases "count q = maxElements q")
  case True
  then show ?thesis using assms by (auto simp: minirtos_Queue_Send_def)
next
  case False
  with assms have "count q < maxElements q" by (simp add: queue_ok_def order_less_le)
  then have "count q + 1 \<le> maxElements q" by (rule inc_le)
  with False assms show ?thesis
    by (auto simp: minirtos_Queue_Send_def queue_ok_def Let_def)
qed

lemma Receive_queue_ok:
  assumes "queue_ok q"
  shows "\<exists>r q' m'. minirtos_Queue_Receive q p m = Some (r, q', m') \<and> queue_ok q'
           \<and> maxElements q' = maxElements q"
proof (cases "count q = 0")
  case True
  then show ?thesis using assms by (auto simp: minirtos_Queue_Receive_def)
next
  case False
  have "count q - 1 \<le> count q" using False less_eq_dec_triv_imp nle_le by blast
  with assms have "count q - 1 \<le> maxElements q" by (auto simp: queue_ok_def)
  with False assms show ?thesis
    by (auto simp: minirtos_Queue_Receive_def queue_ok_def Let_def)
qed

lemma do_call_queue_ok:
  "queue_ok q \<Longrightarrow>
     \<exists>r q' m'. do_call c q m = Some (r, q', m') \<and> queue_ok q' \<and> maxElements q' = maxElements q"
  by (cases c) (use Send_queue_ok Receive_queue_ok in auto)

lemma run_calls_queue_ok:
  "queue_ok q \<Longrightarrow>
     \<exists>rs q' m'. run_calls cs q m = Some (rs, q', m') \<and> queue_ok q' \<and> maxElements q' = maxElements q"
proof (induction cs arbitrary: q m)
  case Nil
  then show ?case by simp
next
  case (Cons c cs)
  from do_call_queue_ok [OF Cons.prems, of c m]
  obtain r q1 m1 where c: "do_call c q m = Some (r, q1, m1)" and ok: "queue_ok q1"
    and mx: "maxElements q1 = maxElements q" by blast
  from Cons.IH [OF ok, of m1]
  obtain rs q2 m2 where "run_calls cs q1 m1 = Some (rs, q2, m2)" "queue_ok q2"
    "maxElements q2 = maxElements q1" by blast
  with c mx show ?case by simp
qed

lemma Send_result:
  "maxElements q \<noteq> 0 \<Longrightarrow>
   \<exists>r q' m'. minirtos_Queue_Send q p m = Some (r, q', m')
      \<and> (\<not> r \<longleftrightarrow> count q = maxElements q) \<and> (\<not> r \<longrightarrow> q' = q \<and> m' = m)"
  by (auto simp: minirtos_Queue_Send_def Let_def)

lemma Receive_result:
  "maxElements q \<noteq> 0 \<Longrightarrow>
   \<exists>r q' m'. minirtos_Queue_Receive q p m = Some (r, q', m')
      \<and> (\<not> r \<longleftrightarrow> count q = 0) \<and> (\<not> r \<longrightarrow> q' = q \<and> m' = m)"
  by (auto simp: minirtos_Queue_Receive_def Let_def)

text \<open>
  Claim C2. Take a queue that \<open>minirtos_Queue_Create\<close> has set up and any sequence \<open>cs\<close> of
  Send and Receive calls on it, from any memory. The sequence has a defined result, the
  capacity is still the one set at creation and the count lies between 0 and the
  capacity. In the state reached, a further Send returns false exactly when the count
  equals the capacity, a further Receive returns false exactly when the count is 0, and a
  call that returns false leaves the descriptor and the whole memory (so also the
  caller's destination buffer) as they were.
\<close>

theorem queue_calls_fail_iff_full_or_empty:
  assumes "minirtos_Queue_Create ptrq buf es mx = (True, Some q)"
  shows "\<exists>rs q' m'. run_calls cs q m = Some (rs, q', m')
           \<and> maxElements q' = maxElements q
           \<and> 0 \<le> unat (count q') \<and> unat (count q') \<le> unat (maxElements q')
           \<and> (\<forall>p. \<exists>r q'' m''. minirtos_Queue_Send q' p m' = Some (r, q'', m'')
                  \<and> (\<not> r \<longleftrightarrow> count q' = maxElements q') \<and> (\<not> r \<longrightarrow> q'' = q' \<and> m'' = m'))
           \<and> (\<forall>p. \<exists>r q'' m''. minirtos_Queue_Receive q' p m' = Some (r, q'', m'')
                  \<and> (\<not> r \<longleftrightarrow> count q' = 0) \<and> (\<not> r \<longrightarrow> q'' = q' \<and> m'' = m'))"
proof -
  from assms have "queue_ok q" by (simp add: Create_queue_ok)
  from run_calls_queue_ok [OF this, of cs m]
  obtain rs q' m' where run: "run_calls cs q m = Some (rs, q', m')" and ok: "queue_ok q'"
    and mx: "maxElements q' = maxElements q" by blast
  from ok have nz: "maxElements q' \<noteq> 0" and le: "unat (count q') \<le> unat (maxElements q')"
    by (simp_all add: queue_ok_def word_le_nat_alt)
  show ?thesis
    using run mx le Send_result [OF nz] Receive_result [OF nz] by simp
qed

theorem queue_calls_fail_iff_full_or_empty_witness:
  "minirtos_Queue_Create (Some q_any) 1000 4 3 = (True, Some q_small)
   \<and> (\<exists>q' m'. run_calls [Send 100, Send 104, Send 108, Send 112, Receive 200] q_small m_msgs
               = Some ([True, True, True, False, True], q', m')
        \<and> unat (count q') \<le> unat (maxElements q')
        \<and> (\<forall>p. \<exists>r q'' m''. minirtos_Queue_Send q' p m' = Some (r, q'', m'')
                  \<and> (\<not> r \<longleftrightarrow> count q' = maxElements q') \<and> (\<not> r \<longrightarrow> q'' = q' \<and> m'' = m')))"
proof -
  have c: "minirtos_Queue_Create (Some q_any) 1000 4 3 = (True, Some q_small)"
    by (simp add: queue_defs)
  have r: "map_option fst (run_calls [Send 100, Send 104, Send 108, Send 112, Receive 200] q_small m_msgs)
            = Some [True, True, True, False, True]"
    by (simp add: minirtos_Queue_Send_def minirtos_Queue_Receive_def q_small_def Let_def next_index_def)
  from queue_calls_fail_iff_full_or_empty
         [OF c, of "[Send 100, Send 104, Send 108, Send 112, Receive 200]" m_msgs] c r
  show ?thesis by auto
qed

subsection \<open>Queue: the byte index of a slot\<close>

text \<open>
  Claim C3. The claim does not hold of the code for every element size and capacity: the
  byte index of a slot is kept in 16 bits, so with 9 slots of 8192 bytes the slot 8 starts
  at the byte index \<open>8 * 8192 mod 65536 = 0\<close>, where slot 0 starts. Nine messages are sent
  (each Send returns true) into the queue that \<open>minirtos_Queue_Create\<close> sets up for these
  sizes; message \<open>k\<close> consists of bytes \<open>k\<close>. The first Receive returns true and puts the
  byte 9 of the ninth message at the destination, where the byte 1 of the first message
  is due.
\<close>

theorem Queue_Receive_delivers_last_message_first:
  "minirtos_Queue_Create (Some q_any) 4096 8192 9 = (True, Some q_big)
   \<and> m_msgs (msg 1) = 1
   \<and> byte_after 100000
        (run_calls [Send (msg 1), Send (msg 2), Send (msg 3), Send (msg 4), Send (msg 5),
                    Send (msg 6), Send (msg 7), Send (msg 8), Send (msg 9), Receive 100000]
           q_big m_msgs)
       = Some ([True, True, True, True, True, True, True, True, True, True], 9)"
  by (simp add: queue_defs)

text \<open>
  Claim C10. The frame of a successful Send does not hold of the code for every queue,
  for the reason given at claim C3. After eight messages the queue of 9 slots of 8192 bytes
  has \<open>head = 0\<close>, \<open>tail = 8\<close>, \<open>count = 8\<close>, and the first byte of its buffer (address
  4096) is the byte 1 of the oldest message, which is still stored. The ninth Send returns
  true and that byte is 9: the Send has written over a stored element, and not into
  the slot at the tail position 8 (byte offset 65536 of the buffer).
\<close>

theorem Queue_Send_overwrites_stored_element:
  "queue_after
     (run_calls [Send (msg 1), Send (msg 2), Send (msg 3), Send (msg 4), Send (msg 5),
                 Send (msg 6), Send (msg 7), Send (msg 8)] q_big m_msgs)
     = Some ([True, True, True, True, True, True, True, True], q_big\<lparr> tail := 8, count := 8 \<rparr>)
   \<and> byte_after 4096
       (run_calls [Send (msg 1), Send (msg 2), Send (msg 3), Send (msg 4), Send (msg 5),
                   Send (msg 6), Send (msg 7), Send (msg 8)] q_big m_msgs)
     = Some ([True, True, True, True, True, True, True, True], 1)
   \<and> byte_after 4096
       (run_calls [Send (msg 1), Send (msg 2), Send (msg 3), Send (msg 4), Send (msg 5),
                   Send (msg 6), Send (msg 7), Send (msg 8), Send (msg 9)] q_big m_msgs)
     = Some ([True, True, True, True, True, True, True, True, True], 9)
   \<and> byte_after (4096 + 65536)
       (run_calls [Send (msg 1), Send (msg 2), Send (msg 3), Send (msg 4), Send (msg 5),
                   Send (msg 6), Send (msg 7), Send (msg 8), Send (msg 9)] q_big m_msgs)
     = Some ([True, True, True, True, True, True, True, True, True], m_msgs (4096 + 65536))"
  by (simp add: queue_defs)

subsection \<open>Scheduler: the dispatch of one-shot tasks\<close>

text \<open>
  Claim C1. The claim does not hold of the code: the one-shot test is the mask
  \<open>taskStatus & TASK_ONE_SHOT\<close>, and \<open>TASK_ONE_SHOT_NOW = 0x05\<close> has the bit \<open>0x02\<close> clear
  while \<open>TASK_RUN_NOW = 0x03\<close> has it set. A task is registered and then set to
  \<open>TASK_ONE_SHOT_NOW\<close> with \<open>minirtos_ModifyTask\<close>; in two passes of the loop, 50 ticks
  apart, its body is called twice, its state stays \<open>TASK_ONE_SHOT_NOW\<close> and it is planned
  again. Set to \<open>TASK_RUN_NOW\<close> instead, its body is called once and the task is paused and
  not planned again.
\<close>

theorem Scheduler_one_shot_mask:
  "task_after 256
     (run no_effect [Init, Add 256 32768 50 TASK_SCHEDULED, Modify 256 50 TASK_ONE_SHOT_NOW,
                     Passes 1, Ticks 50, Passes 1] (startup zeroed))
     = Some ([True, True], [32768, 32768],
             \<lparr> taskPointer = 32768, taskInterval = 50, plannedTask = 100,
               taskStatus = TASK_ONE_SHOT_NOW, gptrTaskNext = 256 \<rparr>)
   \<and> task_after 256
     (run no_effect [Init, Add 256 32768 50 TASK_SCHEDULED, Modify 256 50 TASK_RUN_NOW,
                     Passes 1, Ticks 50, Passes 1] (startup zeroed))
     = Some ([True, True], [32768],
             \<lparr> taskPointer = 32768, taskInterval = 50, plannedTask = 0,
               taskStatus = TASK_PAUSE, gptrTaskNext = 256 \<rparr>)"
  by (simp add: sched_defs)

subsection \<open>Scheduler: the due test across the wrap of the tick counter\<close>

text \<open>
  Claim C4. The claim does not hold of the code: the planned tick is a 32-bit field and
  is widened without sign to the 64 bits of the counter before the subtraction. A task
  with the interval 100 is resumed 200 ticks before the counter wraps, so it is planned
  100 ticks before the wrap and the field holds \<open>2\<^sup>3\<^sup>2 - 100\<close>. When 200 ticks have
  elapsed the counter is 0 and the task is 100 ticks overdue; the difference is
  \<open>4294967196\<close>, not negative, and the pass of the loop calls no task body.
\<close>

theorem Scheduler_overdue_task_not_due_after_wrap:
  "task_after 256
     (run no_effect [Init, Add 256 32768 100 TASK_SCHEDULED, Ticks (- 200), Resume 256,
                     Ticks 200, Passes 1] (startup zeroed))
     = Some ([True, True], [],
             \<lparr> taskPointer = 32768, taskInterval = 100, plannedTask = 4294967196,
               taskStatus = TASK_SCHEDULED, gptrTaskNext = 256 \<rparr>)
   \<and> elapsedTime (planned_from (- 200) 100) 0 = 4294967196"
  by (simp add: sched_defs)

subsection \<open>minirtos_AddTask: state, planned tick and interval of the new task\<close>

text \<open>
  Claim C5. The claim does not hold of the code for the requested states
  \<open>TASK_RUN_NOW\<close> and \<open>TASK_ONE_SHOT_NOW\<close>: on that branch \<open>minirtos_AddTask\<close> plans the task
  but does not store the state. A descriptor in zero-filled storage is added with
  \<open>TASK_RUN_NOW\<close>: the call returns true, the planned tick is the current tick 0, the
  stored state is still \<open>TASK_PAUSE\<close>, and the next pass of the loop does not call the body.
\<close>

theorem AddTask_run_now_leaves_state:
  "task_after 256
     (run no_effect [Init, Add 256 32768 50 TASK_RUN_NOW, Passes 1] (startup zeroed))
     = Some ([True], [],
             \<lparr> taskPointer = 32768, taskInterval = 50, plannedTask = 0,
               taskStatus = TASK_PAUSE, gptrTaskNext = 256 \<rparr>)"
  by (simp add: sched_defs)

lemma unat_widen:
  "unat (ucast (x :: uint32_t) :: uintmax_t) = unat x"
proof -
  have "unat x < 2 ^ 32" using unsigned_less [of x] by simp
  then show ?thesis by (simp add: unsigned_ucast_eq take_bit_eq_mod)
qed

lemma unat_narrow:
  "unat (ucast (x :: uintmax_t) :: uint32_t) = unat x mod 2 ^ 32"
  by (simp add: unsigned_ucast_eq take_bit_eq_mod)

lemma unat_planned_from:
  "unat (planned_from ticks interval) = (unat ticks + unat interval) mod 2 ^ 32"
proof -
  have "unat (planned_from ticks interval) = unat (ticks + ucast interval) mod 2 ^ 32"
    unfolding planned_from_def by (rule unat_narrow)
  also have "unat (ticks + ucast interval) = (unat ticks + unat interval) mod 2 ^ 64"
    by (simp add: unat_word_ariths unat_widen)
  also have "(unat ticks + unat interval) mod 2 ^ 64 mod 2 ^ 32
               = (unat ticks + unat interval) mod 2 ^ 32"
    by (simp add: mod_mod_cancel)
  finally show ?thesis .
qed

lemma checked_interval_eq:
  "checked_interval interval = (if 3600000 < interval then 100 else interval)"
  by (simp add: checked_interval_def MAX_TASK_INTERVAL_def DEFAULT_TASK_INTERVAL_def)

lemma fill_task_interval: "taskInterval (heap (fill_task s p f i st) p) = i"
  by (simp add: fill_task_def Let_def)

lemma AddTask_success:
  "minirtos_AddTask s p f interval status = Some (True, s') \<Longrightarrow>
     \<exists>s1. link_task s p = Some s1
          \<and> s' = fill_task s1 p f (checked_interval interval) (checked_status status)"
  by (auto simp: minirtos_AddTask_def split: if_splits option.splits)

lemma AddTask_flag_independent:
  "map_option fst (minirtos_AddTask s p f interval status)
     = map_option fst (minirtos_AddTask s p f interval' status')"
  by (simp add: minirtos_AddTask_def split: option.splits)

text \<open>
  Claim C8, as stated, fails at the interval 0: the check \<open>taskInterval < 0\<close> is on an
  unsigned value and never holds, so 0 is stored as it is, not replaced by 100.
\<close>

theorem AddTask_interval_zero_is_stored:
  "task_after 256 (run no_effect [Init, Add 256 32768 0 TASK_SCHEDULED] (startup zeroed))
     = Some ([True], [],
             \<lparr> taskPointer = 32768, taskInterval = 0, plannedTask = 0,
               taskStatus = TASK_SCHEDULED, gptrTaskNext = 256 \<rparr>)
   \<and> (0 :: uint32_t) \<noteq> DEFAULT_TASK_INTERVAL"
  by (simp add: sched_defs)

text \<open>
  Claim C8, amended. For every call of \<open>minirtos_AddTask\<close> that returns true, an interval
  above 3600000 is stored as 100 and every interval from 0 to 3600000, 0 included, is
  stored as it is. Whether the call returns true, returns false or has no defined result
  does not depend on the interval.
\<close>

theorem AddTask_interval_default:
  "(\<forall>s'. minirtos_AddTask s p f interval status = Some (True, s') \<longrightarrow>
         taskInterval (heap s' p) = (if 3600000 < interval then 100 else interval))
   \<and> map_option fst (minirtos_AddTask s p f interval status)
       = map_option fst (minirtos_AddTask s p f interval' status)"
proof (intro conjI allI impI)
  fix s' assume "minirtos_AddTask s p f interval status = Some (True, s')"
  then obtain s1 where
    "s' = fill_task s1 p f (checked_interval interval) (checked_status status)"
    using AddTask_success by blast
  then show "taskInterval (heap s' p) = (if 3600000 < interval then 100 else interval)"
    by (simp add: fill_task_interval checked_interval_eq)
next
  show "map_option fst (minirtos_AddTask s p f interval status)
       = map_option fst (minirtos_AddTask s p f interval' status)"
    by (rule AddTask_flag_independent)
qed

theorem AddTask_interval_default_witness:
  "(\<exists>s'. minirtos_AddTask (minirtos_Init (startup zeroed)) 256 32768 3600001 TASK_SCHEDULED
           = Some (True, s')
         \<and> taskInterval (heap s' 256) = 100)
   \<and> (\<exists>s'. minirtos_AddTask (minirtos_Init (startup zeroed)) 256 32768 3600000 TASK_SCHEDULED
           = Some (True, s')
         \<and> taskInterval (heap s' 256) = 3600000)
   \<and> (\<exists>s'. minirtos_AddTask (minirtos_Init (startup zeroed)) 256 32768 0 TASK_SCHEDULED
           = Some (True, s')
         \<and> taskInterval (heap s' 256) = 0)"
proof -
  have ok: "\<exists>s'. minirtos_AddTask (minirtos_Init (startup zeroed)) 256 32768 i TASK_SCHEDULED
                  = Some (True, s')" for i
    by (simp add: sched_defs)
  show ?thesis
    using ok [of 3600001] ok [of 3600000] ok [of 0]
      AddTask_interval_default [of "minirtos_Init (startup zeroed)" 256 32768 3600001 TASK_SCHEDULED]
      AddTask_interval_default [of "minirtos_Init (startup zeroed)" 256 32768 3600000 TASK_SCHEDULED]
      AddTask_interval_default [of "minirtos_Init (startup zeroed)" 256 32768 0 TASK_SCHEDULED]
    by auto
qed

subsection \<open>minirtos_ModifyTask\<close>




subsection \<open>minirtos_RemoveTask and the circle\<close>

text \<open>
  Claim C6. The claim does not hold of the code once the first task is removed: on that
  branch \<open>minirtos_RemoveTask\<close> moves \<open>gptrTaskFirst\<close> to the second descriptor and leaves
  the last descriptor pointing to the removed one. Two tasks are added (descriptors 256
  and 512) and the first is removed; all three calls return true. Then the first
  descriptor is 512, the task count is 1, and one step along \<open>gptrTaskNext\<close> from the
  first descriptor ends at 256, not at the first descriptor.
\<close>

theorem RemoveTask_first_breaks_circle:
  "circle_after
     (run no_effect [Init, Add 256 32768 50 TASK_SCHEDULED, Add 512 36864 50 TASK_SCHEDULED,
                     Remove 256] (startup zeroed))
     = Some ([True, True, True], 512, 1, 256)"
  by (simp add: sched_defs)

text \<open>
  Claim C7. The claim does not hold of the code when the target is the first task.
  Removing the only task (descriptor 256) returns true and brings the count to 0, but
  \<open>gptrTaskFirst\<close> and the cursor still point to the descriptor, and the descriptor is the
  pointer passed to \<open>free\<close>. Removing the first of two tasks returns true, but the
  predecessor 512 still points to the removed descriptor 256, and two passes of the
  loop 50 ticks later call the removed task's body 32768 before the body 36864 of the
  remaining task.
\<close>

theorem RemoveTask_first_not_unlinked:
  "list_after
     (run no_effect [Init, Add 256 32768 50 TASK_SCHEDULED, Remove 256] (startup zeroed))
     = Some ([True, True], 256, 256, 0, [256])
   \<and> task_after 512
     (run no_effect [Init, Add 256 32768 50 TASK_SCHEDULED, Add 512 36864 50 TASK_SCHEDULED,
                     Remove 256, Ticks 50, Passes 1, Passes 1] (startup zeroed))
     = Some ([True, True, True], [32768, 36864],
             \<lparr> taskPointer = 36864, taskInterval = 50, plannedTask = 100,
               taskStatus = TASK_SCHEDULED, gptrTaskNext = 256 \<rparr>)"
  by (simp add: sched_defs)

section \<open>What the code guarantees beside the inputs above\<close>

subsection \<open>Queue: what a successful Send and Receive change\<close>

text \<open>
  A successful Send changes \<open>tail\<close> and \<open>count\<close> only, copies the message to the byte
  index it computes and leaves every byte outside those \<open>elementSize\<close> bytes as it was;
  a successful Receive changes \<open>head\<close> and \<open>count\<close> only and writes the destination
  only. The byte index is the slot's position times the element size as long as that
  product is below 65536.
\<close>

lemma load_memcpy:
  "load (memcpy m dst src n) dst n = load m src n"
  by (simp add: load_def memcpy_def)

lemma memcpy_outside:
  "a < dst \<or> dst + n \<le> a \<Longrightarrow> memcpy m dst src n a = m a"
  by (auto simp: memcpy_def)

lemma slot_index_exact:
  assumes "unat pos * unat elemSize < 65536"
  shows "unat (slot_index pos elemSize) = unat pos * unat elemSize"
proof -
  have "unat (pos * elemSize) = (unat pos * unat elemSize) mod 2 ^ 16"
    by (simp add: unat_word_ariths)
  with assms show ?thesis by (simp add: slot_index_def)
qed

lemma Send_frame:
  assumes "minirtos_Queue_Send q p m = Some (True, q', m')"
  shows "q' = q\<lparr> tail := next_index (tail q) (maxElements q), count := count q + 1 \<rparr>
       \<and> load m' (buffer q + unat (slot_index (tail q) (elementSize q))) (unat (elementSize q))
           = load m p (unat (elementSize q))
       \<and> (\<forall>a. a < buffer q + unat (slot_index (tail q) (elementSize q))
               \<or> buffer q + unat (slot_index (tail q) (elementSize q)) + unat (elementSize q) \<le> a
             \<longrightarrow> m' a = m a)"
  using assms
  by (auto simp: minirtos_Queue_Send_def Let_def load_memcpy memcpy_outside split: if_splits)

lemma Receive_frame:
  assumes "minirtos_Queue_Receive q p m = Some (True, q', m')"
  shows "q' = q\<lparr> head := next_index (head q) (maxElements q), count := count q - 1 \<rparr>
       \<and> load m' p (unat (elementSize q))
           = load m (buffer q + unat (slot_index (head q) (elementSize q))) (unat (elementSize q))
       \<and> (\<forall>a. a < p \<or> p + unat (elementSize q) \<le> a \<longrightarrow> m' a = m a)"
  using assms
  by (auto simp: minirtos_Queue_Receive_def Let_def load_memcpy memcpy_outside split: if_splits)

subsection \<open>Scheduler: the branches of the dispatch\<close>

text \<open>
  The one-shot branch is taken for the states whose number has the bit \<open>0x02\<close> set. A
  paused task and a task that is not due are passed over; a due \<open>TASK_SCHEDULED\<close> task is
  planned again before its body is called; a due \<open>TASK_ONE_SHOT\<close> task is paused after
  its body has returned.
\<close>

lemma one_shot_mask:
  "TASK_PAUSE AND TASK_ONE_SHOT = 0 \<and> TASK_SCHEDULED AND TASK_ONE_SHOT = 0
   \<and> TASK_ONE_SHOT_NOW AND TASK_ONE_SHOT = 0
   \<and> TASK_ONE_SHOT AND TASK_ONE_SHOT \<noteq> 0 \<and> TASK_RUN_NOW AND TASK_ONE_SHOT \<noteq> 0
   \<and> TASK_RUNNING AND TASK_ONE_SHOT \<noteq> 0 \<and> TASK_NOT_FOUND AND TASK_ONE_SHOT \<noteq> 0"
  by (simp add: TASK_PAUSE_def TASK_SCHEDULED_def TASK_ONE_SHOT_def TASK_RUN_NOW_def
                TASK_ONE_SHOT_NOW_def TASK_RUNNING_def TASK_NOT_FOUND_def)

lemma dispatch_paused:
  "taskStatus (heap s (gptrTaskSchedule s)) = TASK_PAUSE \<Longrightarrow> dispatch cb s = Some ([], s)"
  by (simp add: dispatch_def TASK_PAUSE_def)

lemma dispatch_not_due:
  "ZERO < elapsedTime (plannedTask (heap s (gptrTaskSchedule s))) (glbSysTicks s)
     \<Longrightarrow> dispatch cb s = Some ([], s)"
  by (simp add: dispatch_def Let_def)

lemma dispatch_scheduled:
  assumes "t = heap s (gptrTaskSchedule s)"
    and "taskStatus t = TASK_SCHEDULED"
    and "elapsedTime (plannedTask t) (glbSysTicks s) \<le> ZERO"
  shows "dispatch cb s =
           Some ([taskPointer t],
                 cb (taskPointer t)
                    (s\<lparr> heap := (heap s)(gptrTaskSchedule s :=
                           t\<lparr> plannedTask := planned_from (glbSysTicks s) (taskInterval t) \<rparr>) \<rparr>))"
  using assms
  by (simp add: dispatch_def Let_def TASK_PAUSE_def TASK_SCHEDULED_def TASK_ONE_SHOT_def)

lemma dispatch_one_shot:
  assumes "t = heap s (gptrTaskSchedule s)"
    and "taskStatus t = TASK_ONE_SHOT"
    and "elapsedTime (plannedTask t) (glbSysTicks s) \<le> ZERO"
    and "s1 = cb (taskPointer t) s"
    and "gptrTaskSchedule s1 \<noteq> 0"
  shows "dispatch cb s =
           Some ([taskPointer t],
                 s1\<lparr> heap := (heap s1)(gptrTaskSchedule s1 :=
                        (heap s1 (gptrTaskSchedule s1))\<lparr> taskStatus := TASK_PAUSE \<rparr>) \<rparr>)"
  using assms by (simp add: dispatch_def Let_def TASK_PAUSE_def TASK_ONE_SHOT_def)


subsection \<open>Scheduler: the due test while the counter is below \<open>2\<^sup>6\<^sup>3\<close>\<close>

text \<open>
  While the tick counter is below \<open>2\<^sup>6\<^sup>3\<close>, a task planned at the tick \<open>ticks0\<close> with the
  interval \<open>interval\<close> is judged due at every tick from \<open>ticks0 + interval\<close> on.
\<close>

lemma sint_small:
  fixes w :: uintmax_t
  assumes "uint w < 2 ^ 63"
  shows "sint w = uint w"
proof -
  have nn: "0 \<le> uint w" by simp
  have "signed_take_bit 63 (uint w) = uint w"
  proof (rule signed_take_bit_int_eq_self)
    have "(0::int) < 2 ^ 63" by simp
    then show "- (2 ^ 63) \<le> uint w" using nn by linarith
    show "uint w < 2 ^ 63" by (rule assms)
  qed
  then show ?thesis by (simp add: sint_uint)
qed

lemma elapsedTime_due_below_2_63:
  assumes small: "unat ticks < 2 ^ 63"
    and reached: "unat ticks0 + unat interval \<le> unat ticks"
  shows "elapsedTime (planned_from ticks0 interval) ticks \<le> ZERO"
proof -
  define a :: uintmax_t where "a = ucast (planned_from ticks0 interval)"
  have "unat a = (unat ticks0 + unat interval) mod 2 ^ 32"
    unfolding a_def unat_widen by (rule unat_planned_from)
  also have "\<dots> \<le> unat ticks0 + unat interval" by (rule mod_less_eq_dividend)
  finally have le: "unat a \<le> unat ticks" using reached by linarith
  have et: "uint ticks = int (unat ticks)" and ea: "uint a = int (unat a)"
    by (rule uint_nat)+
  have "int (unat ticks) < int (2 ^ 63)" using small by (rule iffD2 [OF of_nat_less_iff])
  then have ut: "uint ticks < 2 ^ 63" unfolding et by simp
  have ule: "uint a \<le> uint ticks" unfolding et ea using le by (rule iffD2 [OF of_nat_le_iff])
  have ua: "uint a < 2 ^ 63" using ule ut by linarith
  have sa: "sint a = uint a" using ua by (rule sint_small)
  have st: "sint ticks = uint ticks" using ut by (rule sint_small)
  have nn: "0 \<le> uint a" by simp
  have "sint (a - ticks) = signed_take_bit 63 (sint a - sint ticks)"
    by (simp add: sint_word_diff)
  also have "\<dots> = sint a - sint ticks"
  proof (rule signed_take_bit_int_eq_self)
    show "- (2 ^ 63) \<le> sint a - sint ticks" unfolding sa st using ut nn by linarith
    have "(0::int) < 2 ^ 63" by simp
    then show "sint a - sint ticks < 2 ^ 63" unfolding sa st using ule by linarith
  qed
  finally have "sint (a - ticks) \<le> 0" unfolding sa st using ule by linarith
  then show ?thesis by (simp add: elapsedTime_def ZERO_def a_def)
qed

subsection \<open>minirtos_AddTask: planned tick and state\<close>

text \<open>
  After a successful \<open>minirtos_AddTask\<close>: for \<open>TASK_RUN_NOW\<close> and \<open>TASK_ONE_SHOT_NOW\<close> the
  planned tick is the low 32 bits of the current tick and the state is the one the
  descriptor held before the call; for the other states the planned tick is
  \<open>planned_from\<close> of the current tick and the checked interval, and the state is the
  checked one.
\<close>

lemma link_task_fields:
  "link_task s p = Some s1 \<Longrightarrow>
     taskStatus (heap s1 q) = taskStatus (heap s q)
     \<and> plannedTask (heap s1 q) = plannedTask (heap s q)
     \<and> glbSysTicks s1 = glbSysTicks s"
  by (auto simp: link_task_def Let_def split: if_splits option.splits)

lemma AddTask_planned_and_state:
  assumes "minirtos_AddTask s p f interval status = Some (True, s')"
  shows "(checked_status status = TASK_RUN_NOW \<or> checked_status status = TASK_ONE_SHOT_NOW \<longrightarrow>
            plannedTask (heap s' p) = ucast (glbSysTicks s)
            \<and> taskStatus (heap s' p) = taskStatus (heap s p))
       \<and> (checked_status status \<noteq> TASK_RUN_NOW \<and> checked_status status \<noteq> TASK_ONE_SHOT_NOW \<longrightarrow>
            plannedTask (heap s' p) = planned_from (glbSysTicks s) (checked_interval interval)
            \<and> taskStatus (heap s' p) = checked_status status)"
proof -
  from assms obtain s1 where l: "link_task s p = Some s1"
    and s': "s' = fill_task s1 p f (checked_interval interval) (checked_status status)"
    using AddTask_success by blast
  from link_task_fields [OF l, of p] s' show ?thesis
    by (simp add: fill_task_def Let_def)
qed


subsection \<open>minirtos_RemoveTask: a target that is not the first task\<close>

text \<open>
  Every call of \<open>minirtos_RemoveTask\<close> that returns true has passed to \<open>free\<close> the
  descriptor \<open>q\<close> that pointed to the target: a descriptor of the caller's, not \<open>NULL\<close>,
  which stays in the list unless it is the target itself. With that call taken as
  harmless (the conventions above), a removal of a target other than the first task
  makes \<open>q\<close> point to the target's successor, leaves the first task unchanged and counts
  one task less. A build in which \<open>free\<close> aborts or overwrites the descriptor does not
  get that far.
\<close>

lemma walk_until_Some:
  assumes "walk_until h stop p = Some q"
  shows "q \<noteq> 0 \<and> gptrTaskNext (h q) = stop"
  using assms
proof (rule walk_until.raw_induct [rotated])
  fix w h' stop' p' q'
  assume "\<And>stop p b y. w stop p b = Some y \<Longrightarrow> y \<noteq> 0 \<and> gptrTaskNext (stop y) = p"
    and "(if p' = 0 then None
          else if gptrTaskNext (h' p') \<noteq> stop' then w h' stop' (gptrTaskNext (h' p'))
               else Some p') = Some q'"
  then show "q' \<noteq> 0 \<and> gptrTaskNext (h' q') = stop'"
    by (auto split: if_splits)
qed

lemma RemoveTask_frees_linked_descriptor:
  assumes "minirtos_RemoveTask s p = Some (True, s')"
  shows "\<exists>q. q \<noteq> 0 \<and> gptrTaskNext (heap s q) = p \<and> freed s' = freed s @ [q]"
proof -
  from assms obtain q where w: "walk_until (heap s) p (gptrTaskFirst s) = Some q"
    by (auto simp: minirtos_RemoveTask_def split: if_splits option.splits)
  then have "q \<noteq> 0 \<and> gptrTaskNext (heap s q) = p" by (rule walk_until_Some)
  with assms w show ?thesis
    by (auto simp: minirtos_RemoveTask_def Let_def split: if_splits)
qed

lemma RemoveTask_not_first:
  assumes "minirtos_RemoveTask s p = Some (True, s')" and "p \<noteq> gptrTaskFirst s"
  shows "\<exists>q. walk_until (heap s) p (gptrTaskFirst s) = Some q
           \<and> gptrTaskNext (heap s q) = p
           \<and> gptrTaskNext (heap s' q) = gptrTaskNext (heap s p)
           \<and> gptrTaskFirst s' = gptrTaskFirst s
           \<and> glbNumberOfTasks s' = glbNumberOfTasks s - 1
           \<and> freed s' = freed s @ [q]"
proof -
  from assms(1) obtain q where w: "walk_until (heap s) p (gptrTaskFirst s) = Some q"
    by (auto simp: minirtos_RemoveTask_def split: if_splits option.splits)
  then have n: "gptrTaskNext (heap s q) = p" by (simp add: walk_until_Some)
  with assms w show ?thesis
    by (auto simp: minirtos_RemoveTask_def Let_def split: if_splits)
qed

subsection \<open>minirtos_AddTask keeps the circle\<close>

text \<open>
  Adding a descriptor that is not \<open>NULL\<close> and not yet in the circle, with a task body,
  while fewer than 255 tasks are counted, returns true and appends the descriptor to the
  circle. So after \<open>minirtos_Init\<close> on a fresh program, adding up to 255 distinct
  descriptors gives a circle: the last descriptor points to the first, and as many steps
  as there are tasks lead from the first descriptor back to it.
\<close>

lemma walk_next_circle:
  assumes "circle h ns"
  shows "i < length ns \<Longrightarrow> walk_next h k (ns ! i) = ns ! ((i + k) mod length ns)"
proof (induction k arbitrary: i)
  case 0
  then show ?case by simp
next
  case (Suc k)
  have n: "gptrTaskNext (h (ns ! i)) = ns ! (Suc i mod length ns)"
    using assms Suc.prems by (simp add: circle_def)
  have "0 < length ns" using Suc.prems by linarith
  then have lt: "Suc i mod length ns < length ns" by (rule mod_less_divisor)
  have "walk_next h (Suc k) (ns ! i) = ns ! ((Suc i mod length ns + k) mod length ns)"
    using Suc.IH [OF lt] n by simp
  also have "(Suc i mod length ns + k) mod length ns = (i + Suc k) mod length ns"
    by (simp add: mod_add_left_eq)
  finally show ?case .
qed

lemma circle_walk_returns:
  assumes "circle h ns"
  shows "walk_next h (length ns) (hd ns) = hd ns"
proof -
  from assms have ne: "ns \<noteq> []" by (simp add: circle_def)
  then have "walk_next h (length ns) (ns ! 0) = ns ! ((0 + length ns) mod length ns)"
    by (intro walk_next_circle [OF assms]) simp
  with ne show ?thesis by (simp add: hd_conv_nth)
qed

lemma walk_until_circle:
  assumes c: "circle h ns"
  shows "i < length ns \<Longrightarrow> walk_until h (ns ! 0) (ns ! i) = Some (last ns)"
proof (induction "length ns - Suc i" arbitrary: i)
  case 0
  then have i: "Suc i = length ns" by simp
  then have "gptrTaskNext (h (ns ! i)) = ns ! 0" using c 0 by (simp add: circle_def)
  moreover have "ns ! i \<noteq> 0" using c 0 by (metis circle_def nth_mem)
  moreover have "ns ! i = last ns" using i c by (metis circle_def diff_Suc_1 last_conv_nth)
  ultimately show ?case by (subst walk_until.simps) simp
next
  case (Suc k)
  then have lt: "Suc i < length ns" by simp
  then have n: "gptrTaskNext (h (ns ! i)) = ns ! Suc i" using c by (simp add: circle_def)
  have "ns ! Suc i \<noteq> ns ! 0"
    using c lt by (simp add: circle_def nth_eq_iff_index_eq)
  moreover have "ns ! i \<noteq> 0" using c Suc.prems by (metis circle_def nth_mem)
  moreover have "walk_until h (ns ! 0) (ns ! Suc i) = Some (last ns)"
    using Suc lt by (intro Suc.hyps(1)) simp_all
  ultimately show ?case using n by (subst walk_until.simps) simp
qed


lemma circle_append:
  assumes c: "circle h ns" and p: "p \<noteq> 0" "p \<notin> set ns"
    and same: "\<And>q. q \<noteq> p \<Longrightarrow> q \<noteq> last ns \<Longrightarrow> gptrTaskNext (h' q) = gptrTaskNext (h q)"
    and lastp: "gptrTaskNext (h' (last ns)) = p"
    and pfirst: "gptrTaskNext (h' p) = hd ns"
  shows "circle h' (ns @ [p])"
proof -
  from c have ne: "ns \<noteq> []" and d: "distinct ns" and z: "0 \<notin> set ns"
    and nx: "\<And>i. i < length ns \<Longrightarrow> gptrTaskNext (h (ns ! i)) = ns ! (Suc i mod length ns)"
    by (simp_all add: circle_def)
  have "gptrTaskNext (h' ((ns @ [p]) ! i)) = (ns @ [p]) ! (Suc i mod length (ns @ [p]))"
    if i: "i < length (ns @ [p])" for i
  proof -
    consider "Suc i < length ns" | "Suc i = length ns" | "i = length ns"
      using i by fastforce
    then show ?thesis
    proof cases
      case 1
      then have mem: "ns ! i \<in> set ns" by simp
      have "ns ! i \<noteq> last ns"
        using 1 d ne by (simp add: last_conv_nth nth_eq_iff_index_eq)
      moreover have "ns ! i \<noteq> p" using mem p by auto
      ultimately have "gptrTaskNext (h' (ns ! i)) = gptrTaskNext (h (ns ! i))"
        by (intro same)
      also have "\<dots> = ns ! Suc i" using nx [of i] 1 by simp
      finally show ?thesis using 1 by (simp add: nth_append)
    next
      case 2
      then have "ns ! i = last ns" using ne by (metis diff_Suc_1 last_conv_nth)
      then show ?thesis using 2 lastp by (simp add: nth_append)
    next
      case 3
      then show ?thesis using pfirst ne by (simp add: nth_append hd_conv_nth)
    qed
  qed
  then show ?thesis using ne d z p by (simp add: circle_def)
qed

lemma AddTask_keeps_circle:
  assumes l: "linked s ns" and p: "p \<noteq> 0" "p \<notin> set ns" and f: "f \<noteq> 0"
    and room: "glbNumberOfTasks s \<noteq> MAX_TASKS_NUMBER"
  shows "\<exists>s'. minirtos_AddTask s p f interval status = Some (True, s') \<and> linked s' (ns @ [p])"
proof -
  from l have init: "glbInitialized s \<noteq> 0" and len: "unat (glbNumberOfTasks s) = length ns"
    by (simp_all add: linked_def)
  have "(- 1 :: uint8_t) = 255" by simp
  with room have "glbNumberOfTasks s \<noteq> - 1" by (simp only: MAX_TASKS_NUMBER_def) simp
  then have "1 + glbNumberOfTasks s \<noteq> 0" by (simp add: add_eq_0_iff)
  then have "unat (1 + glbNumberOfTasks s) = Suc (unat (glbNumberOfTasks s))" by (rule unatSuc)
  then have len': "unat (glbNumberOfTasks s + 1) = Suc (length ns)"
    using len by (simp add: add.commute)
  show ?thesis
  proof (cases "ns = []")
    case True
    with l have first: "gptrTaskFirst s = 0" by (simp add: linked_def)
    show ?thesis
      using True first init room p f len'
      by (simp add: minirtos_AddTask_def link_task_def fill_task_def Let_def linked_def circle_def)
  next
    case False
    with l have first: "gptrTaskFirst s = hd ns" and cur: "gptrTaskSchedule s \<in> set ns"
      and c: "circle (heap s) ns" by (simp_all add: linked_def)
    from c have z: "0 \<notin> set ns" by (simp add: circle_def)
    from False first z have fnz: "gptrTaskFirst s \<noteq> 0" by (metis hd_in_set)
    from cur obtain i where i: "i < length ns" "gptrTaskSchedule s = ns ! i"
      by (metis in_set_conv_nth)
    have w: "walk_until (heap s) (gptrTaskFirst s) (gptrTaskSchedule s) = Some (last ns)"
      using walk_until_circle [OF c i(1)] i(2) first False by (simp add: hd_conv_nth)
    define h1 where "h1 = (heap s)(last ns := (heap s (last ns))\<lparr> gptrTaskNext := p \<rparr>)"
    define h2 where "h2 = h1(p := (h1 p)\<lparr> gptrTaskNext := gptrTaskFirst s \<rparr>)"
    define s1 where "s1 = s\<lparr> heap := h2 \<rparr>"
    have lk: "link_task s p = Some s1"
      using fnz w by (simp add: link_task_def Let_def s1_def h2_def h1_def)
    define s' where "s' = fill_task s1 p f (checked_interval interval) (checked_status status)"
    have res: "minirtos_AddTask s p f interval status = Some (True, s')"
      using init room f p lk by (simp add: minirtos_AddTask_def s'_def)
    have lastp: "last ns \<noteq> p" using False p by (metis last_in_set)
    have c': "circle (heap s') (ns @ [p])"
    proof (rule circle_append [OF c p])
      fix q assume "q \<noteq> p" "q \<noteq> last ns"
      then show "gptrTaskNext (heap s' q) = gptrTaskNext (heap s q)"
        by (simp add: s'_def fill_task_def Let_def s1_def h2_def h1_def)
    next
      show "gptrTaskNext (heap s' (last ns)) = p"
        using lastp by (simp add: s'_def fill_task_def Let_def s1_def h2_def h1_def)
    next
      show "gptrTaskNext (heap s' p) = hd ns"
        using first by (simp add: s'_def fill_task_def Let_def s1_def h2_def h1_def)
    qed
    have "linked s' (ns @ [p])"
      using c' init len' first cur False
      by (simp add: linked_def s'_def fill_task_def Let_def s1_def)
    with res show ?thesis by blast
  qed
qed


lemma Init_linked: "linked (minirtos_Init (startup h)) []"
  by (simp add: linked_def minirtos_Init_def startup_def)

lemma run_adds_keep_circle:
  assumes "linked s ns" and "distinct (ns @ ps)" and "0 \<notin> set ps"
    and "length ns + length ps \<le> 255" and "f \<noteq> 0"
  shows "\<exists>s'. run cb (map (\<lambda>p. Add p f interval status) ps) s
                = Some (replicate (length ps) True, [], s')
              \<and> linked s' (ns @ ps)"
  using assms
proof (induction ps arbitrary: s ns)
  case Nil
  then show ?case by simp
next
  case (Cons p ps)
  have "unat (glbNumberOfTasks s) < 255" using Cons.prems by (simp add: linked_def)
  then have room: "glbNumberOfTasks s \<noteq> MAX_TASKS_NUMBER"
    by (auto simp: MAX_TASKS_NUMBER_def)
  from Cons.prems have "p \<noteq> 0" "p \<notin> set ns" by auto
  from AddTask_keeps_circle [OF Cons.prems(1) this Cons.prems(5) room, of interval status]
  obtain s1 where a: "minirtos_AddTask s p f interval status = Some (True, s1)"
    and l1: "linked s1 (ns @ [p])" by blast
  have "\<exists>s'. run cb (map (\<lambda>p. Add p f interval status) ps) s1
                = Some (replicate (length ps) True, [], s')
              \<and> linked s' ((ns @ [p]) @ ps)"
    using l1 Cons.prems by (intro Cons.IH) simp_all
  then obtain s' where "run cb (map (\<lambda>p. Add p f interval status) ps) s1
                = Some (replicate (length ps) True, [], s')" and "linked s' (ns @ p # ps)"
    by auto
  with a show ?case by simp
qed

lemma linked_circular:
  assumes "linked s ns" and "ns \<noteq> []"
  shows "walk_next (heap s) (unat (glbNumberOfTasks s)) (gptrTaskFirst s) = gptrTaskFirst s
       \<and> gptrTaskNext (heap s (last ns)) = gptrTaskFirst s"
proof -
  from assms have c: "circle (heap s) ns" and first: "gptrTaskFirst s = hd ns"
    and len: "unat (glbNumberOfTasks s) = length ns" by (simp_all add: linked_def)
  have "length ns - 1 < length ns" using assms(2) by simp
  with c have "gptrTaskNext (heap s (ns ! (length ns - 1))) = ns ! (Suc (length ns - 1) mod length ns)"
    unfolding circle_def by blast
  then have "gptrTaskNext (heap s (last ns)) = hd ns"
    using assms(2) by (simp add: last_conv_nth hd_conv_nth)
  with circle_walk_returns [OF c] first len show ?thesis by simp
qed

lemma added_tasks_form_circle:
  assumes "distinct ps" and "0 \<notin> set ps" and "ps \<noteq> []" and "length ps \<le> 255" and "f \<noteq> 0"
  shows "\<exists>s'. run cb (Init # map (\<lambda>p. Add p f interval status) ps) (startup h)
                = Some (replicate (length ps) True, [], s')
              \<and> gptrTaskFirst s' = hd ps
              \<and> unat (glbNumberOfTasks s') = length ps
              \<and> walk_next (heap s') (length ps) (gptrTaskFirst s') = gptrTaskFirst s'
              \<and> gptrTaskNext (heap s' (last ps)) = gptrTaskFirst s'"
proof -
  from run_adds_keep_circle [OF Init_linked, of ps f cb interval status h] assms
  obtain s' where r: "run cb (map (\<lambda>p. Add p f interval status) ps) (minirtos_Init (startup h))
                = Some (replicate (length ps) True, [], s')" and l: "linked s' ps"
    by auto
  from l assms(3) have "gptrTaskFirst s' = hd ps" "unat (glbNumberOfTasks s') = length ps"
    by (simp_all add: linked_def)
  with linked_circular [OF l assms(3)] r show ?thesis by simp
qed

subsection \<open>Queue: first in, first out while the byte index fits 16 bits\<close>

text \<open>
  On a ring whose last slot starts below the byte index 65536, a successful Send appends
  the bytes of the message to the stored elements, and a successful Receive into a
  destination outside the buffer delivers the oldest stored element and leaves the others
  stored, in their order. A queue fresh from \<open>minirtos_Queue_Create\<close> is such a ring when
  \<open>(maxElements - 1) * elementSize < 65536\<close>, and stores nothing.
\<close>

lemma unat_next_index:
  assumes "mx \<noteq> 0"
  shows "unat (next_index pos mx) = (unat pos + 1) mod unat mx"
proof -
  have "0 < unat mx" using assms by (simp add: unat_gt_0)
  then have "(unat pos + 1) mod unat mx < unat mx" by (rule mod_less_divisor)
  moreover have "unat mx < 2 ^ 16" using unsigned_less [of mx] by simp
  ultimately have "(unat pos + 1) mod unat mx < 2 ^ 16" by linarith
  then show ?thesis by (simp add: next_index_def unat_of_nat)
qed

lemma slot_index_in_ring:
  assumes "pos < mx" and "(unat mx - 1) * unat es < 65536"
  shows "unat (slot_index pos es) = unat pos * unat es"
proof (rule slot_index_exact)
  have "unat pos \<le> unat mx - 1" using assms(1) by (simp add: word_less_nat_alt)
  then have "unat pos * unat es \<le> (unat mx - 1) * unat es" by (rule mult_le_mono1)
  with assms(2) show "unat pos * unat es < 65536" by linarith
qed

lemma load_outside:
  assumes "a + n \<le> dst \<or> dst + n' \<le> a"
  shows "load (memcpy m dst src n') a n = load m a n"
  using assms by (auto simp: load_def memcpy_def)

lemma slots_apart:
  fixes j t s :: nat
  assumes "j \<noteq> t"
  shows "b + j * s + s \<le> b + t * s \<or> b + t * s + s \<le> b + j * s"
proof (cases "j < t")
  case True
  then have "Suc j * s \<le> t * s" by (intro mult_le_mono1) simp
  then show ?thesis by simp
next
  case False
  with assms have "Suc t * s \<le> j * s" by (intro mult_le_mono1) simp
  then show ?thesis by simp
qed

lemma ring_positions_differ:
  fixes h i n c :: nat
  assumes "i < n" and "n < c"
  shows "(h + i) mod c \<noteq> (h + n) mod c"
proof
  assume "(h + i) mod c = (h + n) mod c"
  then have "(h + n - (h + i)) mod c = 0"
    using assms by (metis add_le_cancel_left less_imp_le mod_eq_dvd_iff_nat dvd_eq_mod_eq_0)
  then have "(n - i) mod c = 0" by simp
  moreover have "0 < n - i" "n - i < c" using assms by simp_all
  ultimately show False by simp
qed


lemma Send_contents:
  assumes ok: "ring_ok q" and send: "minirtos_Queue_Send q p m = Some (True, q', m')"
  shows "ring_ok q' \<and> contents q' m' = contents q m @ [load m p (unat (elementSize q))]"
proof -
  define c where "c = unat (maxElements q)"
  define n where "n = unat (count q)"
  define h where "h = unat (head q)"
  define es where "es = unat (elementSize q)"
  from send have neq: "count q \<noteq> maxElements q"
    by (auto simp: minirtos_Queue_Send_def split: if_splits)
  from ok have mx: "maxElements q \<noteq> 0" and tl: "tail q < maxElements q"
    and hd: "head q < maxElements q"
    and t: "unat (tail q) = (h + n) mod c" and fit: "(c - 1) * es < 65536"
    and le: "count q \<le> maxElements q"
    by (simp_all add: ring_ok_def c_def n_def h_def es_def)
  from le neq have lt: "count q < maxElements q" by (simp add: order_less_le)
  then have nc: "n < c" by (simp add: word_less_nat_alt n_def c_def)
  have c16: "c < 2 ^ 16" using unsigned_less [of "maxElements q"] by (simp add: c_def)
  have cnt: "unat (count q + 1) = Suc n"
  proof -
    have "unat (count q + 1) = (n + 1) mod 2 ^ 16" by (simp add: unat_word_ariths n_def)
    moreover have "n + 1 < 2 ^ 16" using nc c16 by linarith
    ultimately show ?thesis by simp
  qed
  have idx: "unat (slot_index (tail q) (elementSize q)) = ((h + n) mod c) * es"
    using slot_index_in_ring [OF tl, of "elementSize q"] fit t by (simp add: c_def es_def)
  from Send_frame [OF send]
  have q': "q' = q\<lparr> tail := next_index (tail q) (maxElements q), count := count q + 1 \<rparr>"
    by simp
  have m': "m' = memcpy m (buffer q + ((h + n) mod c) * es) p es"
    using send neq mx idx by (simp add: minirtos_Queue_Send_def Let_def es_def)
  have tl': "unat (tail q') = (h + Suc n) mod c"
  proof -
    have "unat (tail q') = ((h + n) mod c + 1) mod c"
      using unat_next_index [OF mx, of "tail q"] t by (simp add: q' c_def)
    also have "\<dots> = (h + Suc n) mod c" by (simp add: mod_Suc_eq)
    finally show ?thesis .
  qed
  have cpos: "0 < c" using nc by linarith
  have "unat (tail q') < c" unfolding tl' using cpos by (rule mod_less_divisor)
  then have tlt: "tail q' < maxElements q'" by (simp add: word_less_nat_alt q' c_def)
  have cle: "count q' \<le> maxElements q'"
    using cnt nc by (simp add: word_le_nat_alt q' c_def)
  have ok': "ring_ok q'"
    using mx hd tlt cle tl' cnt fit
    by (simp add: ring_ok_def q' c_def h_def es_def)
  have sl: "slot q' i = slot q i" for i by (simp add: slot_def q')
  have old: "load m' (slot q i) es = load m (slot q i) es" if "i < n" for i
  proof -
    have "(h + i) mod c \<noteq> (h + n) mod c" using that nc by (rule ring_positions_differ)
    from slots_apart [OF this, of "buffer q" es]
    show ?thesis unfolding m' slot_def h_def [symmetric] c_def [symmetric] es_def [symmetric]
      by (intro load_outside) simp
  qed
  have new: "load m' (slot q n) es = load m p es"
    by (simp add: m' slot_def load_memcpy h_def c_def es_def n_def)
  have es': "unat (elementSize q') = es" by (simp add: q' es_def)
  have cq: "unat (count q') = Suc n" using cnt by (simp add: q')
  have "contents q' m' = map (\<lambda>i. load m' (slot q i) es) [0..<Suc n]"
    unfolding contents_def sl es' cq ..
  also have "\<dots> = map (\<lambda>i. load m' (slot q i) es) [0..<n] @ [load m' (slot q n) es]"
    by simp
  also have "map (\<lambda>i. load m' (slot q i) es) [0..<n] = map (\<lambda>i. load m (slot q i) es) [0..<n]"
    using old by simp
  finally show ?thesis using ok' new by (simp add: contents_def es_def n_def)
qed


lemma Receive_contents:
  assumes ok: "ring_ok q" and recv: "minirtos_Queue_Receive q p m = Some (True, q', m')"
    and apart: "p + unat (elementSize q) \<le> buffer q
                \<or> buffer q + unat (maxElements q) * unat (elementSize q) \<le> p"
  shows "ring_ok q' \<and> contents q m = load m' p (unat (elementSize q)) # contents q' m'"
proof -
  define c where "c = unat (maxElements q)"
  define n where "n = unat (count q)"
  define h where "h = unat (head q)"
  define es where "es = unat (elementSize q)"
  from recv have nz: "count q \<noteq> 0"
    by (auto simp: minirtos_Queue_Receive_def split: if_splits)
  from ok have mx: "maxElements q \<noteq> 0" and tl: "tail q < maxElements q"
    and hd: "head q < maxElements q"
    and t: "unat (tail q) = (h + n) mod c" and fit: "(c - 1) * es < 65536"
    and le: "count q \<le> maxElements q"
    by (simp_all add: ring_ok_def c_def n_def h_def es_def)
  have hc: "h < c" using hd by (simp add: word_less_nat_alt h_def c_def)
  have npos: "0 < n" using nz by (simp add: n_def unat_gt_0)
  have nc: "n \<le> c" using le by (simp add: word_le_nat_alt n_def c_def)
  have cnt: "unat (count q - 1) = n - 1" using nz by (simp add: unat_minus_one n_def)
  have idx: "unat (slot_index (head q) (elementSize q)) = h * es"
    using slot_index_in_ring [OF hd, of "elementSize q"] fit by (simp add: c_def es_def h_def)
  from Receive_frame [OF recv]
  have q': "q' = q\<lparr> head := next_index (head q) (maxElements q), count := count q - 1 \<rparr>"
    by simp
  have m': "m' = memcpy m p (buffer q + h * es) es"
    using recv nz mx idx by (simp add: minirtos_Queue_Receive_def Let_def es_def)
  have hd': "unat (head q') = Suc h mod c"
    using unat_next_index [OF mx, of "head q"] by (simp add: q' c_def h_def)
  have "unat (head q') < c" unfolding hd' using hc by (intro mod_less_divisor) linarith
  then have hlt: "head q' < maxElements q'" by (simp add: word_less_nat_alt q' c_def)
  have cle: "count q' \<le> maxElements q'"
    using cnt nc by (simp add: word_le_nat_alt q' c_def)
  have tl': "unat (tail q') = (unat (head q') + unat (count q')) mod c"
  proof -
    have "(Suc h mod c + (n - 1)) mod c = (Suc h + (n - 1)) mod c"
      by (rule mod_add_left_eq)
    also have "Suc h + (n - 1) = h + n" using npos by simp
    finally show ?thesis using t cnt hd' by (simp add: q')
  qed
  have ok': "ring_ok q'"
    using mx hlt tl cle tl' fit by (simp add: ring_ok_def q' c_def es_def)
  have sl: "slot q' i = slot q (Suc i)" for i
  proof -
    have "(Suc h mod c + i) mod c = (Suc h + i) mod c" by (rule mod_add_left_eq)
    then show ?thesis using hd' by (simp add: slot_def q' c_def h_def)
  qed
  have inside: "buffer q \<le> slot q i \<and> slot q i + es \<le> buffer q + c * es" for i
  proof -
    have "(h + i) mod c < c" using hc by (intro mod_less_divisor) linarith
    then have "Suc ((h + i) mod c) * es \<le> c * es" by (intro mult_le_mono1) simp
    then show ?thesis by (simp add: slot_def h_def c_def es_def)
  qed
  have keep: "load m' (slot q i) es = load m (slot q i) es" for i
    unfolding m' using inside [of i] apart
    by (intro load_outside) (auto simp: c_def es_def)
  have first: "load m' p es = load m (slot q 0) es"
    using hc by (simp add: m' load_memcpy slot_def h_def c_def es_def)
  have es': "unat (elementSize q') = es" by (simp add: q' es_def)
  have cq: "unat (count q') = n - 1" using cnt by (simp add: q')
  have "contents q' m' = map (\<lambda>i. load m (slot q (Suc i)) es) [0..<n - 1]"
    unfolding contents_def sl es' cq keep ..
  also have "\<dots> = map (\<lambda>i. load m (slot q i) es) (map Suc [0..<n - 1])"
    by (simp add: comp_def)
  also have "map Suc [0..<n - 1] = [1..<n]"
    using npos by (simp add: map_Suc_upt)
  finally have rest: "contents q' m' = map (\<lambda>i. load m (slot q i) es) [1..<n]" .
  have "[0..<n] = 0 # [1..<n]" using npos by (simp add: upt_conv_Cons)
  then have "contents q m = load m (slot q 0) es # map (\<lambda>i. load m (slot q i) es) [1..<n]"
    by (simp add: contents_def es_def n_def)
  with rest first ok' show ?thesis by (simp add: es_def)
qed

lemma Create_ring_ok:
  assumes "minirtos_Queue_Create ptrq buf es mx = (True, Some q)"
    and "(unat (maxElements q) - 1) * unat es < 65536"
  shows "ring_ok q \<and> contents q m = [] \<and> elementSize q = es"
  using assms
  by (auto simp: minirtos_Queue_Create_def ring_ok_def contents_def MAX_NO_OF_QUEUE_ELEMENTS_def
                 word_greater_zero_iff
           split: option.splits if_splits)

end
